theory Spec2Isabelle
  imports Main "HOL-Library.FSet"
begin

section \<open>Data of scheduler/limiter.go\<close>

text \<open>
  A Go \<open>error\<close> is \<open>nil\<close> (\<open>None\<close>) or a value (\<open>Some e\<close>); the limiter never
  inspects one, it only hands it on.
\<close>

type_synonym error = string

text \<open>\<open>monitor.Job\<close>: the limiter reads its \<open>Uuid\<close> field only.\<close>

record monitor_Job =
  Uuid :: string

text \<open>
  \<open>batchv1.Job\<close> of the Kubernetes API, as far as the limiter reads it: the labels and the
  condition list of the status. \<open>JobConditionType\<close> and the condition's status are string
  types there; the field \<open>Status\<close> of a condition is called \<open>CondStatus\<close> here, since a record
  field name is a constant and \<open>Status\<close> is the job's field.
\<close>

type_synonym JobConditionType = string

definition JobComplete :: JobConditionType where
  "JobComplete = ''Complete''"

definition JobFailed :: JobConditionType where
  "JobFailed = ''Failed''"

record JobCondition =
  Type :: JobConditionType
  CondStatus :: string

record JobStatus =
  Conditions :: "JobCondition list"

record batchv1_Job =
  Labels :: "string \<rightharpoonup> string"
  Status :: JobStatus

text \<open>
  The handlers take an \<open>interface{}\<close> and assert \<open>obj.(*batchv1.Job)\<close>. \<open>OtherObj\<close> is
  every value on which a handler panics before it reads or writes the limiter: a value of
  another type, where the assertion fails, and a nil pointer, where the first field read
  fails.
\<close>

datatype obj = JobObj batchv1_Job | OtherObj

datatype panic = MakeChanSizeOutOfRange | NotAJob

text \<open>
  \<open>job.Labels[key]\<close>: a Go map read of a missing key gives the zero value, the empty string.
\<close>

definition label :: "batchv1_Job \<Rightarrow> string \<Rightarrow> string" where
  "label job key = (case Labels job key of None \<Rightarrow> [] | Some v \<Rightarrow> v)"

text \<open>
  \<open>chan struct{}\<close>: the elements carry nothing, so a channel is the number of elements in
  its buffer and its capacity. \<open>make(chan struct{}, n)\<close> panics for a negative \<open>n\<close>.
  \<open>chan_send\<close> and \<open>chan_recv\<close> are the operations when they can complete on the buffer;
  \<open>None\<close> says that the goroutine has to park.
\<close>

record chan =
  buffered :: nat
  capacity :: nat

definition make_chan :: "int \<Rightarrow> panic + chan" where
  "make_chan n = (if n < 0 then Inl MakeChanSizeOutOfRange
                  else Inr \<lparr>buffered = 0, capacity = nat n\<rparr>)"

definition chan_send :: "chan \<Rightarrow> chan option" where
  "chan_send c = (if buffered c < capacity c then Some (c\<lparr>buffered := buffered c + 1\<rparr>) else None)"

definition chan_recv :: "chan \<Rightarrow> chan option" where
  "chan_recv c = (if 0 < buffered c then Some (c\<lparr>buffered := buffered c - 1\<rparr>) else None)"

text \<open>
  The downstream scheduler (\<open>monitor.JobHandler\<close>) is outside the limiter. Its \<open>Create\<close> is
  any function of the calls it has received so far (with what it answered), of whether the
  context is done at the call, and of the job. The log of those calls is how the launches
  are counted.
\<close>

type_synonym call_log = "(monitor_Job \<times> error option) list"

type_synonym JobHandler = "call_log \<Rightarrow> bool \<Rightarrow> monitor_Job \<Rightarrow> error option"

text \<open>
  The struct. \<open>mu\<close> is True while a goroutine holds the write lock across a blocking point;
  every other critical section of the file is one atomic step. \<open>inFlight\<close> is a
  \<open>map[string]struct{}\<close>, a finite set of strings, and \<open>len\<close> is \<open>fcard\<close>.
\<close>

record MaxInFlightLimiter =
  scheduler :: JobHandler
  MaxInFlight :: int
  mu :: bool
  inFlight :: "string fset"
  completions :: chan

section \<open>The functions\<close>

definition NewLimiter :: "JobHandler \<Rightarrow> int \<Rightarrow> panic + MaxInFlightLimiter" where
  "NewLimiter sched maxInFlight =
     (case make_chan maxInFlight of
        Inl p \<Rightarrow> Inl p
      | Inr c \<Rightarrow> Inr \<lparr>scheduler = sched, MaxInFlight = maxInFlight, mu = False,
                      inFlight = {||}, completions = c\<rparr>)"

text \<open>The loop of \<open>isFinished\<close>, with the variable \<open>finished\<close> as accumulator.\<close>

fun isFinished_loop :: "bool \<Rightarrow> JobCondition list \<Rightarrow> bool" where
  "isFinished_loop finished [] = finished"
| "isFinished_loop finished (cond # conds) =
     isFinished_loop (if Type cond = JobComplete \<or> Type cond = JobFailed then True else finished)
       conds"

definition isFinished :: "batchv1_Job \<Rightarrow> bool" where
  "isFinished job = isFinished_loop False (Conditions (Status job))"

text \<open>
  \<open>Create\<close>, line 72: the test made on the size read under the read lock. True sends the
  caller to the receive of line 74.
\<close>

definition Create_must_wait :: "MaxInFlightLimiter \<Rightarrow> bool" where
  "Create_must_wait l = (MaxInFlight l > 0 \<and> int (fcard (inFlight l)) \<ge> MaxInFlight l)"

text \<open>
  \<open>add\<close>, the body under the write lock. It returns the error, the limiter and the
  scheduler's log.
\<close>

definition add ::
  "MaxInFlightLimiter \<Rightarrow> call_log \<Rightarrow> bool \<Rightarrow> monitor_Job
     \<Rightarrow> error option \<times> MaxInFlightLimiter \<times> call_log" where
  "add l log ctx_done job =
     (if Uuid job |\<in>| inFlight l then (None, l, log)
      else (case scheduler l log ctx_done job of
              Some err \<Rightarrow> (Some err, l, log @ [(job, Some err)])
            | None \<Rightarrow> (None, l\<lparr>inFlight := finsert (Uuid job) (inFlight l)\<rparr>,
                        log @ [(job, None)])))"

text \<open>
  The handlers read the label \<open>api.UUIDLabel\<close>, a constant of a package outside this file:
  it is the parameter \<open>UUIDLabel\<close> of each of them.
\<close>

definition OnAdd :: "string \<Rightarrow> MaxInFlightLimiter \<Rightarrow> obj \<Rightarrow> panic + MaxInFlightLimiter" where
  "OnAdd UUIDLabel l ob =
     (case ob of
        OtherObj \<Rightarrow> Inl NotAJob
      | JobObj job \<Rightarrow>
          Inr (if \<not> isFinished job then
                 (let uuid = label job UUIDLabel in
                  if uuid |\<notin>| inFlight l then l\<lparr>inFlight := finsert uuid (inFlight l)\<rparr>
                  else l)
               else l))"

text \<open>
  \<open>markComplete\<close> deletes and then sends on \<open>completions\<close>. The send is the one place where
  a handler can park, and it parks there with the write lock held and the identifier
  already deleted: \<open>Parked\<close> carries the limiter as it is at that point.
\<close>

datatype progress = Completed MaxInFlightLimiter | Parked MaxInFlightLimiter

definition markComplete :: "string \<Rightarrow> MaxInFlightLimiter \<Rightarrow> batchv1_Job \<Rightarrow> progress" where
  "markComplete UUIDLabel l job =
     (let uuid = label job UUIDLabel in
      if uuid |\<in>| inFlight l then
        (let l' = l\<lparr>inFlight := inFlight l |-| {|uuid|}\<rparr> in
         case chan_send (completions l') of
           Some c \<Rightarrow> Completed (l'\<lparr>completions := c\<rparr>)
         | None \<Rightarrow> Parked l')
      else Completed l)"

definition OnUpdate :: "string \<Rightarrow> MaxInFlightLimiter \<Rightarrow> obj \<Rightarrow> obj \<Rightarrow> panic + progress" where
  "OnUpdate UUIDLabel l old ob =
     (case ob of
        OtherObj \<Rightarrow> Inl NotAJob
      | JobObj job \<Rightarrow>
          (let uuid = label job UUIDLabel in
           if isFinished job then Inr (markComplete UUIDLabel l job)
           else if uuid |\<notin>| inFlight l
             then Inr (Completed (l\<lparr>inFlight := finsert uuid (inFlight l)\<rparr>))
             else Inr (Completed l)))"

definition OnDelete :: "string \<Rightarrow> MaxInFlightLimiter \<Rightarrow> obj \<Rightarrow> panic + progress" where
  "OnDelete UUIDLabel l ob =
     (case ob of
        OtherObj \<Rightarrow> Inl NotAJob
      | JobObj job \<Rightarrow> Inr (markComplete UUIDLabel l job))"

section \<open>Goroutines\<close>

text \<open>
  \<open>Create\<close> runs concurrently with the informer's handlers, and it has two blocking points
  of its own, so a call is a goroutine with a program point, and the program is the
  interleaving of their atomic steps. A context is named by a number; \<open>cancelled\<close> says
  whose \<open>Done\<close> channel is closed.
\<close>

type_synonym Context = nat

datatype call =
    CallCreate Context monitor_Job
  | CallOnAdd obj
  | CallOnUpdate obj obj
  | CallOnDelete obj

datatype point =
    Called call
      \<comment> \<open>the call is made, its first lock not yet taken (\<open>RLock\<close> in \<open>Create\<close>, line 69;
          \<open>Lock\<close> in a handler)\<close>
  | CreateReceive Context monitor_Job
      \<comment> \<open>line 74, in \<open><-l.completions\<close>\<close>
  | CreateSelect Context monitor_Job
      \<comment> \<open>line 77, before the \<open>select\<close>\<close>
  | CreateAdd Context monitor_Job
      \<comment> \<open>line 81, in \<open>add\<close> before \<open>l.mu.Lock()\<close>\<close>
  | HandlerSend
      \<comment> \<open>line 145, parked in \<open>l.completions <- struct{}{}\<close> with \<open>l.mu\<close> held\<close>
  | Returned "error option"
  | Panicked panic

record system =
  UUIDLabel :: string
  limiter :: MaxInFlightLimiter
  goroutines :: "nat \<rightharpoonup> point"
  cancelled :: "Context \<Rightarrow> bool"
  launched :: call_log

datatype action =
    Call nat call      \<comment> \<open>a new goroutine calls a method of the limiter\<close>
  | Step nat           \<comment> \<open>the goroutine runs to its next program point\<close>
  | Handoff nat nat    \<comment> \<open>a parked sender gives its element to a parked receiver\<close>
  | Cancel Context     \<comment> \<open>the context is cancelled\<close>

definition at :: "system \<Rightarrow> nat \<Rightarrow> point \<Rightarrow> system" where
  "at s g p = s\<lparr>goroutines := (goroutines s)(g \<mapsto> p)\<rparr>"

text \<open>
  What a handler's body leaves: the goroutine returns and the deferred \<open>Unlock\<close> runs, or it
  parks in the send and keeps the lock.
\<close>

definition handler_result :: "system \<Rightarrow> nat \<Rightarrow> panic + progress \<Rightarrow> system" where
  "handler_result s g r =
     (case r of
        Inl p \<Rightarrow> at s g (Panicked p)
      | Inr (Completed l') \<Rightarrow> at (s\<lparr>limiter := l'\<rparr>) g (Returned None)
      | Inr (Parked l') \<Rightarrow> at (s\<lparr>limiter := l'\<lparr>mu := True\<rparr>\<rparr>) g HandlerSend)"

fun goroutine_step :: "system \<Rightarrow> nat \<Rightarrow> point \<Rightarrow> system option" where
  "goroutine_step s g (Called (CallCreate ctx job)) =
     (if mu (limiter s) then None
      else if Create_must_wait (limiter s) then Some (at s g (CreateReceive ctx job))
      else Some (at s g (CreateSelect ctx job)))"
| "goroutine_step s g (CreateReceive ctx job) =
     (case chan_recv (completions (limiter s)) of
        None \<Rightarrow> None
      | Some c \<Rightarrow> Some (at (s\<lparr>limiter := (limiter s)\<lparr>completions := c\<rparr>\<rparr>) g (CreateSelect ctx job)))"
| "goroutine_step s g (CreateSelect ctx job) =
     (if cancelled s ctx then Some (at s g (Returned None))
      else Some (at s g (CreateAdd ctx job)))"
| "goroutine_step s g (CreateAdd ctx job) =
     (if mu (limiter s) then None
      else (case add (limiter s) (launched s) (cancelled s ctx) job of
              (err, l', log') \<Rightarrow> Some (at (s\<lparr>limiter := l', launched := log'\<rparr>) g (Returned err))))"
| "goroutine_step s g (Called (CallOnAdd ob)) =
     (if mu (limiter s) then None
      else Some (handler_result s g (map_sum id Completed (OnAdd (UUIDLabel s) (limiter s) ob))))"
| "goroutine_step s g (Called (CallOnUpdate old ob)) =
     (if mu (limiter s) then None
      else Some (handler_result s g (OnUpdate (UUIDLabel s) (limiter s) old ob)))"
| "goroutine_step s g (Called (CallOnDelete ob)) =
     (if mu (limiter s) then None
      else Some (handler_result s g (OnDelete (UUIDLabel s) (limiter s) ob)))"
| "goroutine_step s g HandlerSend =
     (case chan_send (completions (limiter s)) of
        None \<Rightarrow> None
      | Some c \<Rightarrow> Some (at (s\<lparr>limiter := (limiter s)\<lparr>completions := c, mu := False\<rparr>\<rparr>) g
                         (Returned None)))"
| "goroutine_step s g (Returned err) = None"
| "goroutine_step s g (Panicked p) = None"

text \<open>
  One action of the program; \<open>None\<close> when the action cannot happen in this state (the
  goroutine is blocked, has finished or does not exist). A handoff is Go's direct send to
  a receiver that waits: the sender returns and unlocks, the receiver goes on, the buffer
  stays as it is.
\<close>

fun step :: "system \<Rightarrow> action \<Rightarrow> system option" where
  "step s (Call g c) =
     (case goroutines s g of None \<Rightarrow> Some (at s g (Called c)) | Some p \<Rightarrow> None)"
| "step s (Step g) =
     (case goroutines s g of None \<Rightarrow> None | Some p \<Rightarrow> goroutine_step s g p)"
| "step s (Handoff g r) =
     (case (goroutines s g, goroutines s r) of
        (Some HandlerSend, Some (CreateReceive ctx job)) \<Rightarrow>
          Some (at (at (s\<lparr>limiter := (limiter s)\<lparr>mu := False\<rparr>\<rparr>) g (Returned None)) r
                  (CreateSelect ctx job))
      | _ \<Rightarrow> None)"
| "step s (Cancel ctx) = Some (s\<lparr>cancelled := (cancelled s)(ctx := True)\<rparr>)"

fun run :: "system \<Rightarrow> action list \<Rightarrow> system option" where
  "run s [] = Some s"
| "run s (a # as) = (case step s a of None \<Rightarrow> None | Some s' \<Rightarrow> run s' as)"

text \<open>The program after \<open>NewLimiter\<close>: no goroutine yet, no context cancelled, nothing launched.\<close>

definition start :: "string \<Rightarrow> JobHandler \<Rightarrow> int \<Rightarrow> panic + system" where
  "start key sched maxInFlight =
     (case NewLimiter sched maxInFlight of
        Inl p \<Rightarrow> Inl p
      | Inr l \<Rightarrow> Inr \<lparr>UUIDLabel = key, limiter = l, goroutines = Map.empty,
                      cancelled = (\<lambda>_. False), launched = []\<rparr>)"

section \<open>Scenarios and observations\<close>

text \<open>
  The informer's replay at start: one \<open>OnAdd\<close> after the other, in the order of the list.
\<close>

fun replay :: "string \<Rightarrow> MaxInFlightLimiter \<Rightarrow> obj list \<Rightarrow> panic + MaxInFlightLimiter" where
  "replay key l [] = Inr l"
| "replay key l (ob # obs) =
     (case OnAdd key l ob of Inl p \<Rightarrow> Inl p | Inr l' \<Rightarrow> replay key l' obs)"

text \<open>The identifiers of the jobs of a list that are not finished.\<close>

definition live_ids :: "string \<Rightarrow> batchv1_Job list \<Rightarrow> string list" where
  "live_ids key jobs = map (\<lambda>job. label job key) (filter (\<lambda>job. \<not> isFinished job) jobs)"

text \<open>
  Read off the scheduler's log: the launches asked for an identifier, and the launches that
  succeeded.
\<close>

definition launches_of :: "string \<Rightarrow> call_log \<Rightarrow> nat" where
  "launches_of u log = length (filter (\<lambda>(job, r). Uuid job = u) log)"

definition successes :: "call_log \<Rightarrow> nat" where
  "successes log = length (filter (\<lambda>(job, r). r = None) log)"

text \<open>The identifier is in flight in every state that the actions go through.\<close>

fun stays_in_flight :: "string \<Rightarrow> system \<Rightarrow> action list \<Rightarrow> bool" where
  "stays_in_flight u s [] = (u |\<in>| inFlight (limiter s))"
| "stays_in_flight u s (a # as) =
     (u |\<in>| inFlight (limiter s) \<and>
      (case step s a of None \<Rightarrow> False | Some s' \<Rightarrow> stays_in_flight u s' as))"

text \<open>An action of the admission path: no handler is called.\<close>

fun admission :: "action \<Rightarrow> bool" where
  "admission (Call g (CallCreate ctx job)) = True"
| "admission (Call g c) = False"
| "admission a = True"

text \<open>
  The goroutine is a handler in the terminal transition of an identifier that is tracked:
  it is about to run \<open>markComplete\<close> on one, or it is parked in the send of one.
\<close>

fun signals_at :: "system \<Rightarrow> point \<Rightarrow> bool" where
  "signals_at s HandlerSend = True"
| "signals_at s (Called (CallOnUpdate old (JobObj job))) =
     (isFinished job \<and> label job (UUIDLabel s) |\<in>| inFlight (limiter s))"
| "signals_at s (Called (CallOnDelete (JobObj job))) =
     (label job (UUIDLabel s) |\<in>| inFlight (limiter s))"
| "signals_at s p = False"

definition signals :: "system \<Rightarrow> action \<Rightarrow> bool" where
  "signals s a =
     (case a of
        Step h \<Rightarrow> (case goroutines s h of None \<Rightarrow> False | Some p \<Rightarrow> signals_at s p)
      | _ \<Rightarrow> False)"

text \<open>Some action of the run is such a step.\<close>

fun signalled :: "system \<Rightarrow> action list \<Rightarrow> bool" where
  "signalled s [] = False"
| "signalled s (a # as) =
     (signals s a \<or> (case step s a of None \<Rightarrow> False | Some s' \<Rightarrow> signalled s' as))"

text \<open>No goroutine is in the receive of \<open>Create\<close>.\<close>

definition no_receiver :: "system \<Rightarrow> bool" where
  "no_receiver s = (\<forall>g ctx job. goroutines s g \<noteq> Some (CreateReceive ctx job))"

text \<open>
  A handler is parked in the send with the lock, the channel has no room and nobody is in
  the receive.
\<close>

definition wedged :: "system \<Rightarrow> nat \<Rightarrow> bool" where
  "wedged s h =
     (goroutines s h = Some HandlerSend \<and> mu (limiter s)
      \<and> chan_send (completions (limiter s)) = None \<and> no_receiver s)"

text \<open>A program point of a handler.\<close>

fun handler_point :: "point \<Rightarrow> bool" where
  "handler_point (Called (CallCreate ctx job)) = False"
| "handler_point (Called c) = True"
| "handler_point HandlerSend = True"
| "handler_point p = False"

text \<open>
  What holds while only admissions run: the lock is free, the channel is empty, the set
  has one identifier for each launch that succeeded, and no goroutine is a handler.
\<close>

definition quiet :: "system \<Rightarrow> bool" where
  "quiet s =
     (\<not> mu (limiter s) \<and> buffered (completions (limiter s)) = 0
      \<and> fcard (inFlight (limiter s)) = successes (launched s)
      \<and> (\<forall>g p. goroutines s g = Some p \<longrightarrow> \<not> handler_point p))"

text \<open>The goroutine is in the receive, the channel is empty and no sender is parked.\<close>

definition unsignalled :: "system \<Rightarrow> nat \<Rightarrow> Context \<Rightarrow> monitor_Job \<Rightarrow> bool" where
  "unsignalled s g ctx job =
     (goroutines s g = Some (CreateReceive ctx job) \<and> buffered (completions (limiter s)) = 0
      \<and> (\<forall>h. goroutines s h \<noteq> Some HandlerSend))"

text \<open>Concrete values for the examples.\<close>

definition always_ok :: JobHandler where
  "always_ok log ctx_done job = None"

definition always_refuses :: JobHandler where
  "always_refuses log ctx_done job = Some ''refused''"

definition job_a :: monitor_Job where
  "job_a = \<lparr>Uuid = ''a''\<rparr>"

definition job_b :: monitor_Job where
  "job_b = \<lparr>Uuid = ''b''\<rparr>"

definition job_c :: monitor_Job where
  "job_c = \<lparr>Uuid = ''c''\<rparr>"

definition k8s_job :: "string \<Rightarrow> JobCondition list \<Rightarrow> batchv1_Job" where
  "k8s_job uuid conds = \<lparr>Labels = [''uuid'' \<mapsto> uuid], Status = \<lparr>Conditions = conds\<rparr>\<rparr>"

definition started :: "JobHandler \<Rightarrow> int \<Rightarrow> system" where
  "started sched maxInFlight = projr (start ''uuid'' sched maxInFlight)"

definition admit :: "nat \<Rightarrow> Context \<Rightarrow> monitor_Job \<Rightarrow> action list" where
  "admit g ctx job = [Call g (CallCreate ctx job), Step g, Step g, Step g]"

definition delete :: "nat \<Rightarrow> string \<Rightarrow> action list" where
  "delete g uuid = [Call g (CallOnDelete (JobObj (k8s_job uuid []))), Step g]"

definition found_at_start :: "batchv1_Job list" where
  "found_at_start =
     [k8s_job ''a'' [], k8s_job ''b'' [\<lparr>Type = ''Failed'', CondStatus = ''True''\<rparr>],
      k8s_job ''c'' [\<lparr>Type = ''Suspended'', CondStatus = ''True''\<rparr>]]"

text \<open>
  Limit 2, job a admitted: a second call for job a is made (\<open>dup_called\<close>) and has gone on
  to \<open>add\<close> (\<open>dup_adding\<close>).
\<close>

definition dup_called :: system where
  "dup_called = the (run (started always_ok 2) (admit 0 0 job_a @ [Call 1 (CallCreate 0 job_a)]))"

definition dup_adding :: system where
  "dup_adding =
     the (run (started always_ok 2) (admit 0 0 job_a @ [Call 1 (CallCreate 0 job_a), Step 1, Step 1]))"

text \<open>A call for job a is in \<open>add\<close>, and the scheduler refuses every job.\<close>

definition refused_adding :: system where
  "refused_adding =
     the (run (started always_refuses 1) [Call 0 (CallCreate 0 job_a), Step 0, Step 0])"

text \<open>No limit, job a admitted, a call for job b is made.\<close>

definition unlimited_called :: system where
  "unlimited_called =
     the (run (started always_ok 0) (admit 0 0 job_a @ [Call 1 (CallCreate 0 job_b)]))"

text \<open>Limit 1 and job a admitted: the set is at the limit.\<close>

definition throttled :: system where
  "throttled = the (run (started always_ok 1) (admit 0 0 job_a))"

text \<open>
  Limit 1, job a admitted, two more calls in the receive, and then job a deleted: one token
  for two callers.
\<close>

definition two_waiting :: system where
  "two_waiting =
     the (run (started always_ok 1)
            (admit 0 0 job_a @ [Call 1 (CallCreate 0 job_b), Step 1,
                                Call 2 (CallCreate 0 job_a), Step 2] @ delete 3 ''a''))"

text \<open>
  Limit 1, job a admitted, a call for job b with its own context 1 in the receive, and
  context 1 cancelled.
\<close>

definition cancelled_waiting :: system where
  "cancelled_waiting =
     the (run (started always_ok 1)
            (admit 0 0 job_a @ [Call 1 (CallCreate 1 job_b), Step 1, Cancel 1]))"

text \<open>
  Limit 1 and job a admitted; a call for job b with its own context 1 and a call for job c
  are in the receive; context 1 is cancelled; then job a is deleted, and its token is in
  the channel.
\<close>

definition one_token_two_callers :: system where
  "one_token_two_callers =
     the (run (started always_ok 1)
            (admit 0 0 job_a @ [Call 1 (CallCreate 1 job_b), Step 1,
                                Call 2 (CallCreate 0 job_c), Step 2, Cancel 1]
               @ delete 3 ''a''))"

text \<open>No limit and job a admitted; then job a deleted by goroutine 1.\<close>

definition admitted_unlimited :: system where
  "admitted_unlimited = the (run (started always_ok 0) (admit 0 0 job_a))"

definition parked_unlimited :: system where
  "parked_unlimited = the (run (started always_ok 0) (admit 0 0 job_a @ delete 1 ''a''))"

text \<open>
  Job a as the update reports it when it has completed, and the program with no limit
  and job a admitted after that update is delivered to goroutine 1.
\<close>

definition job_a_complete :: batchv1_Job where
  "job_a_complete = k8s_job ''a'' [\<lparr>Type = ''Complete'', CondStatus = ''True''\<rparr>]"

definition update_a_complete :: "action list" where
  "update_a_complete =
     [Call 1 (CallOnUpdate (JobObj (k8s_job ''a'' [])) (JobObj job_a_complete)), Step 1]"

definition parked_update :: system where
  "parked_update = the (run admitted_unlimited update_a_complete)"

text \<open>
  Limit 1: job a admitted and deleted, which leaves a token that no caller takes, then job
  b admitted and deleted by goroutine 3.
\<close>

definition parked_full :: system where
  "parked_full =
     the (run (started always_ok 1)
            (admit 0 0 job_a @ delete 1 ''a'' @ admit 2 0 job_b @ delete 3 ''b''))"

text \<open>
  The scenario of the specification: limit 2, jobs a and b admitted, a call for job c
  made, and then the update that reports job a complete, by goroutine 3.
\<close>

definition third_call :: "action list" where
  "third_call = admit 0 0 job_a @ admit 1 0 job_b @ [Call 2 (CallCreate 0 job_c), Step 2]"

definition a_completes :: "action list" where
  "a_completes =
     [Call 3 (CallOnUpdate (JobObj (k8s_job ''a'' []))
                (JobObj (k8s_job ''a'' [\<lparr>Type = ''Complete'', CondStatus = ''True''\<rparr>]))),
      Step 3]"

section \<open>Evaluation of the definitions\<close>

lemmas body_defs = at_def handler_result_def OnAdd_def OnUpdate_def OnDelete_def markComplete_def
  chan_send_def chan_recv_def add_def Let_def

lemmas example_defs = started_def start_def NewLimiter_def make_chan_def Create_must_wait_def
  admit_def delete_def always_ok_def always_refuses_def job_a_def job_b_def job_c_def k8s_job_def label_def
  isFinished_def fcard_finsert_if fcard_fempty

section \<open>The terminal-state predicate\<close>

lemma isFinished_loop_iff:
  "isFinished_loop finished conds \<longleftrightarrow>
     finished \<or> (\<exists>cond \<in> set conds. Type cond = JobComplete \<or> Type cond = JobFailed)"
  by (induction conds arbitrary: finished) auto

text \<open>
  C10. \<open>isFinished\<close> looks at the types of the conditions only: a job is finished exactly
  when some condition of its status has the type Complete or Failed, whatever the status
  field of the conditions says (rewriting every status field leaves the answer as it is),
  and a job without conditions is not finished.
\<close>

theorem isFinished_by_condition_type:
  "(isFinished job \<longleftrightarrow>
      (\<exists>cond \<in> set (Conditions (Status job)). Type cond = JobComplete \<or> Type cond = JobFailed))
   \<and> isFinished (job\<lparr>Status := (Status job)\<lparr>Conditions :=
         map (\<lambda>cond. cond\<lparr>CondStatus := st cond\<rparr>) (Conditions (Status job))\<rparr>\<rparr>) = isFinished job
   \<and> \<not> isFinished (job\<lparr>Status := (Status job)\<lparr>Conditions := []\<rparr>\<rparr>)"
  by (simp add: isFinished_def isFinished_loop_iff)

theorem isFinished_by_condition_type_witness:
  "isFinished (k8s_job ''a'' [\<lparr>Type = ''Suspended'', CondStatus = ''True''\<rparr>,
                              \<lparr>Type = ''Failed'', CondStatus = ''False''\<rparr>])
   \<and> isFinished (k8s_job ''a'' [\<lparr>Type = ''Complete'', CondStatus = ''Unknown''\<rparr>])
   \<and> \<not> isFinished (k8s_job ''a'' [\<lparr>Type = ''Suspended'', CondStatus = ''True''\<rparr>])
   \<and> \<not> isFinished (k8s_job ''a'' [])"
  using isFinished_by_condition_type
    [of "k8s_job ''a'' [\<lparr>Type = ''Suspended'', CondStatus = ''True''\<rparr>,
                        \<lparr>Type = ''Failed'', CondStatus = ''False''\<rparr>]" CondStatus]
    isFinished_by_condition_type
    [of "k8s_job ''a'' [\<lparr>Type = ''Complete'', CondStatus = ''Unknown''\<rparr>]" CondStatus]
    isFinished_by_condition_type
    [of "k8s_job ''a'' [\<lparr>Type = ''Suspended'', CondStatus = ''True''\<rparr>]" CondStatus]
    isFinished_by_condition_type [of "k8s_job ''a'' []" CondStatus]
  by (simp add: k8s_job_def JobComplete_def JobFailed_def)

section \<open>The handlers\<close>

lemma OnAdd_job:
  "OnAdd key l (JobObj job) =
     Inr (if isFinished job \<or> label job key |\<in>| inFlight l then l
          else l\<lparr>inFlight := finsert (label job key) (inFlight l)\<rparr>)"
  by (simp add: OnAdd_def Let_def)

lemma replay_jobs:
  "replay key l (map JobObj jobs) =
     Inr (l\<lparr>inFlight := inFlight l |\<union>| fset_of_list (live_ids key jobs)\<rparr>)"
proof (induction jobs arbitrary: l)
  case Nil
  show ?case by (simp add: live_ids_def)
next
  case (Cons job jobs)
  show ?case
    by (auto simp: OnAdd_job Cons.IH live_ids_def finsert_absorb)
qed

lemma fcard_fset_of_list_distinct: "distinct xs \<Longrightarrow> fcard (fset_of_list xs) = length xs"
  by (simp add: fcard.rep_eq fset_of_list.rep_eq distinct_card)

text \<open>
  C8. \<open>OnAdd\<close> of a job inserts its identifier exactly when the job is not finished and the
  identifier is not there yet, and does nothing else (the channel is not touched). So the
  replay of a list of jobs into a new limiter, the unfinished ones with distinct
  identifiers, leaves as many identifiers in flight as there are unfinished jobs in the
  list, and no signal.
\<close>

theorem OnAdd_tracks_live_objects:
  "OnAdd key l (JobObj job) =
     Inr (if isFinished job \<or> label job key |\<in>| inFlight l then l
          else l\<lparr>inFlight := finsert (label job key) (inFlight l)\<rparr>)
   \<and> (NewLimiter sched n = Inr l0 \<and> distinct (live_ids key jobs) \<longrightarrow>
        (\<exists>l'. replay key l0 (map JobObj jobs) = Inr l'
           \<and> fcard (inFlight l') = length (filter (\<lambda>job. \<not> isFinished job) jobs)
           \<and> inFlight l' = fset_of_list (live_ids key jobs)
           \<and> completions l' = completions l0))"
proof (intro conjI impI)
  show "OnAdd key l (JobObj job) =
     Inr (if isFinished job \<or> label job key |\<in>| inFlight l then l
          else l\<lparr>inFlight := finsert (label job key) (inFlight l)\<rparr>)"
    by (rule OnAdd_job)
next
  assume a: "NewLimiter sched n = Inr l0 \<and> distinct (live_ids key jobs)"
  then have empty: "inFlight l0 = {||}"
    by (auto simp: NewLimiter_def split: sum.splits)
  have "fcard (fset_of_list (live_ids key jobs)) = length (live_ids key jobs)"
    using a by (simp add: fcard_fset_of_list_distinct)
  then show "\<exists>l'. replay key l0 (map JobObj jobs) = Inr l'
           \<and> fcard (inFlight l') = length (filter (\<lambda>job. \<not> isFinished job) jobs)
           \<and> inFlight l' = fset_of_list (live_ids key jobs)
           \<and> completions l' = completions l0"
    by (simp add: replay_jobs empty live_ids_def)
qed

theorem OnAdd_tracks_live_objects_witness:
  "NewLimiter always_ok 1 = Inr (projr (NewLimiter always_ok 1))
   \<and> distinct (live_ids ''uuid'' found_at_start)
   \<and> OnAdd ''uuid'' (projr (NewLimiter always_ok 1))
         (JobObj (k8s_job ''b'' [\<lparr>Type = ''Failed'', CondStatus = ''True''\<rparr>]))
       = Inr (projr (NewLimiter always_ok 1))
   \<and> (\<exists>l'. replay ''uuid'' (projr (NewLimiter always_ok 1)) (map JobObj found_at_start) = Inr l'
         \<and> fcard (inFlight l') = 2 \<and> inFlight l' = {|''a'', ''c''|}
         \<and> buffered (completions l') = 0)"
  using OnAdd_tracks_live_objects
    [of "''uuid''" "projr (NewLimiter always_ok 1)"
        "k8s_job ''b'' [\<lparr>Type = ''Failed'', CondStatus = ''True''\<rparr>]"
        always_ok 1 "projr (NewLimiter always_ok 1)" found_at_start]
  by (simp add: found_at_start_def live_ids_def example_defs body_defs JobComplete_def
      JobFailed_def)

text \<open>
  \<open>OnUpdate\<close> does not read the old object, and what it does on a job, written out: on a
  finished job whose identifier is tracked it deletes the identifier and sends, which adds
  a token where the channel has room and parks where it has none; on a finished job that
  is not tracked it does nothing; on an unfinished job it inserts the identifier if it is
  not tracked and does nothing if it is.
\<close>

lemma OnUpdate_ignores_old:
  "OnUpdate key l old ob = OnUpdate key l old' ob
   \<and> goroutine_step s g (Called (CallOnUpdate old ob)) =
       goroutine_step s g (Called (CallOnUpdate old' ob))"
  by (simp add: OnUpdate_def Let_def)

lemma OnUpdate_effect:
  "OnUpdate key l old (JobObj job) =
     Inr (if isFinished job then
            (if label job key |\<in>| inFlight l then
               (if buffered (completions l) < capacity (completions l)
                then Completed (l\<lparr>inFlight := inFlight l |-| {|label job key|},
                                  completions :=
                                    (completions l)\<lparr>buffered := buffered (completions l) + 1\<rparr>\<rparr>)
                else Parked (l\<lparr>inFlight := inFlight l |-| {|label job key|}\<rparr>))
             else Completed l)
          else if label job key |\<in>| inFlight l then Completed l
          else Completed (l\<lparr>inFlight := finsert (label job key) (inFlight l)\<rparr>))"
  by (simp add: OnUpdate_def markComplete_def chan_send_def Let_def)

section \<open>Steps and runs\<close>

lemma run_append: "run s (as @ bs) = (case run s as of None \<Rightarrow> None | Some s' \<Rightarrow> run s' bs)"
  by (induction as arbitrary: s) (auto split: option.splits)

lemma run_invariant:
  assumes "run s as = Some s'" and "P s"
    and "\<And>t a t'. P t \<Longrightarrow> step t a = Some t' \<Longrightarrow> P t'"
  shows "P s'"
  using assms(1,2)
proof (induction as arbitrary: s)
  case Nil
  then show ?case by simp
next
  case (Cons a as)
  then obtain s1 where "step s a = Some s1" "run s1 as = Some s'"
    by (auto split: option.splits)
  with Cons.IH [of s1] Cons.prems(2) assms(3) show ?case by blast
qed

text \<open>What is set at construction stays: the limit, the capacity, the scheduler, the label.\<close>

lemma goroutine_step_fixes:
  assumes "goroutine_step s g p = Some s'"
  shows "MaxInFlight (limiter s') = MaxInFlight (limiter s)
    \<and> capacity (completions (limiter s')) = capacity (completions (limiter s))
    \<and> scheduler (limiter s') = scheduler (limiter s)
    \<and> UUIDLabel s' = UUIDLabel s"
proof (cases p)
  case (Called c)
  with assms show ?thesis
    by (cases c) (auto simp: body_defs split: if_splits obj.splits)
qed (use assms in \<open>auto simp: body_defs split: if_splits option.splits\<close>)

lemma step_fixes:
  assumes "step s a = Some s'"
  shows "MaxInFlight (limiter s') = MaxInFlight (limiter s)
    \<and> capacity (completions (limiter s')) = capacity (completions (limiter s))
    \<and> scheduler (limiter s') = scheduler (limiter s)
    \<and> UUIDLabel s' = UUIDLabel s"
proof (cases a)
  case (Step g)
  with assms obtain p where "goroutine_step s g p = Some s'"
    by (auto split: option.splits)
  then show ?thesis by (rule goroutine_step_fixes)
qed (use assms in \<open>auto simp: at_def split: option.splits point.splits\<close>)

section \<open>The idempotent add\<close>

lemma add_duplicate: "Uuid job |\<in>| inFlight l \<Longrightarrow> add l log d job = (None, l, log)"
  by (simp add: add_def)

lemma goroutine_step_no_relaunch:
  assumes "goroutine_step s g p = Some s'" and "u |\<in>| inFlight (limiter s)"
  shows "launches_of u (launched s') = launches_of u (launched s)"
proof (cases p)
  case (Called c)
  with assms show ?thesis
    by (cases c) (auto simp: body_defs split: if_splits obj.splits)
next
  case (CreateAdd ctx job)
  with assms show ?thesis
    by (auto simp: body_defs launches_of_def split: if_splits option.splits)
qed (use assms in \<open>auto simp: body_defs split: if_splits option.splits\<close>)

lemma step_no_relaunch:
  assumes "step s a = Some s'" and "u |\<in>| inFlight (limiter s)"
  shows "launches_of u (launched s') = launches_of u (launched s)"
proof (cases a)
  case (Step g)
  with assms obtain p where "goroutine_step s g p = Some s'"
    by (auto split: option.splits)
  then show ?thesis using assms(2) by (rule goroutine_step_no_relaunch)
qed (use assms in \<open>auto simp: at_def split: option.splits point.splits\<close>)

lemma run_no_relaunch:
  "stays_in_flight u s as \<Longrightarrow> run s as = Some s' \<Longrightarrow>
     launches_of u (launched s') = launches_of u (launched s)"
proof (induction as arbitrary: s)
  case Nil
  then show ?case by simp
next
  case (Cons a as)
  from Cons.prems obtain s1 where s1: "step s a = Some s1" and inf: "u |\<in>| inFlight (limiter s)"
    and rest: "stays_in_flight u s1 as" "run s1 as = Some s'"
    by (auto split: option.splits)
  from rest have "launches_of u (launched s') = launches_of u (launched s1)"
    by (rule Cons.IH)
  with step_no_relaunch [OF s1 inf] show ?case by simp
qed

text \<open>
  C2, as the claim has it, fails where the set is at the limit: the capacity wait of
  \<open>Create\<close> comes before the duplicate check of \<open>add\<close>. With the limit 1 and job a in
  flight, a second \<open>Create\<close> for job a goes to the receive of line 74 and cannot take a
  step there: it has not returned nil, it waits for a completion. When that completion is
  the one of job a, the call goes on with the token, finds the identifier gone, and the
  scheduler is called for job a a second time.
\<close>

theorem duplicate_at_the_limit_waits:
  "Uuid job_a |\<in>| inFlight (limiter (the (run (started always_ok 1) (admit 0 0 job_a))))
   \<and> run (started always_ok 1) (admit 0 0 job_a @ [Call 1 (CallCreate 0 job_a), Step 1])
       = Some (at (the (run (started always_ok 1) (admit 0 0 job_a))) 1 (CreateReceive 0 job_a))
   \<and> run (started always_ok 1) (admit 0 0 job_a @ [Call 1 (CallCreate 0 job_a), Step 1, Step 1])
       = None
   \<and> map_option launched
         (run (started always_ok 1)
            (admit 0 0 job_a @ [Call 1 (CallCreate 0 job_a), Step 1] @ delete 2 ''a''
               @ [Step 1, Step 1, Step 1]))
       = Some [(job_a, None), (job_a, None)]"
  by (simp add: example_defs body_defs)

text \<open>
  C2, amended. For a job whose identifier is in flight, \<open>add\<close> returns nil, calls no
  scheduler and changes nothing. So a \<open>Create\<close> for it that does not have to wait at line
  72 goes to the \<open>select\<close>, and from the \<open>select\<close> on (also after a wait) it returns nil
  and leaves the limiter and the scheduler's log as they are. No run in which the
  identifier stays in flight adds a launch for it, however many calls are made.
\<close>

theorem duplicate_admission_launches_nothing:
  assumes "Uuid job |\<in>| inFlight (limiter s)"
  shows "add (limiter s) log d job = (None, limiter s, log)
    \<and> (goroutines s g = Some (Called (CallCreate ctx job)) \<and> \<not> mu (limiter s)
         \<and> \<not> Create_must_wait (limiter s)
         \<longrightarrow> step s (Step g) = Some (at s g (CreateSelect ctx job)))
    \<and> (goroutines s g = Some (CreateSelect ctx job) \<and> \<not> mu (limiter s)
         \<longrightarrow> run s (if cancelled s ctx then [Step g] else [Step g, Step g]) =
               Some (at s g (Returned None)))
    \<and> (goroutines s g = Some (CreateAdd ctx job) \<and> \<not> mu (limiter s)
         \<longrightarrow> step s (Step g) = Some (at s g (Returned None)))
    \<and> (stays_in_flight (Uuid job) s as \<and> run s as = Some s'
         \<longrightarrow> launches_of (Uuid job) (launched s') = launches_of (Uuid job) (launched s))"
  using assms
  by (auto simp: add_duplicate at_def run_no_relaunch)

theorem duplicate_admission_launches_nothing_witness:
  "Uuid job_a |\<in>| inFlight (limiter dup_called)
   \<and> add (limiter dup_called) [(job_a, None)] False job_a = (None, limiter dup_called, [(job_a, None)])
   \<and> goroutines dup_called 1 = Some (Called (CallCreate 0 job_a))
   \<and> \<not> mu (limiter dup_called) \<and> \<not> Create_must_wait (limiter dup_called)
   \<and> step dup_called (Step 1) = Some (at dup_called 1 (CreateSelect 0 job_a))
   \<and> goroutines (at dup_called 1 (CreateSelect 0 job_a)) 1 = Some (CreateSelect 0 job_a)
   \<and> \<not> cancelled (at dup_called 1 (CreateSelect 0 job_a)) 0
   \<and> run (at dup_called 1 (CreateSelect 0 job_a)) [Step 1, Step 1] =
       Some (at dup_called 1 (Returned None))
   \<and> goroutines dup_adding 1 = Some (CreateAdd 0 job_a) \<and> \<not> mu (limiter dup_adding)
   \<and> step dup_adding (Step 1) = Some (at dup_adding 1 (Returned None))
   \<and> stays_in_flight ''a'' dup_called [Step 1, Step 1, Step 1]
   \<and> run dup_called [Step 1, Step 1, Step 1] = Some (at dup_called 1 (Returned None))
   \<and> launches_of ''a'' (launched (at dup_called 1 (Returned None))) = 1"
  using duplicate_admission_launches_nothing
     [of job_a dup_called "[(job_a, None)]" False 1 0 "[Step 1, Step 1, Step 1]"
         "at dup_called 1 (Returned None)"]
    duplicate_admission_launches_nothing
     [of job_a "at dup_called 1 (CreateSelect 0 job_a)" "[(job_a, None)]" False 1 0 "[]"
         "at dup_called 1 (CreateSelect 0 job_a)"]
    duplicate_admission_launches_nothing
     [of job_a dup_adding "[(job_a, None)]" False 1 0 "[]" dup_adding]
  by (simp add: dup_called_def dup_adding_def example_defs body_defs launches_of_def)

text \<open>
  C3. When the scheduler refuses a job that is not tracked, \<open>add\<close> returns that error and
  the limiter it was given, and the \<open>Create\<close> that is in \<open>add\<close> returns that error with
  the limiter as it was: the identifier is not recorded, only the scheduler's log has the
  call. A later \<open>add\<close> for the same job on that limiter asks the scheduler again and
  answers what it answers.
\<close>

theorem failed_launch_is_not_recorded:
  assumes "Uuid job |\<notin>| inFlight (limiter s)"
    and "scheduler (limiter s) (launched s) (cancelled s ctx) job = Some err"
  shows "add (limiter s) (launched s) (cancelled s ctx) job =
           (Some err, limiter s, launched s @ [(job, Some err)])
    \<and> (goroutines s g = Some (CreateAdd ctx job) \<and> \<not> mu (limiter s)
         \<longrightarrow> step s (Step g) =
               Some (at (s\<lparr>launched := launched s @ [(job, Some err)]\<rparr>) g (Returned (Some err))))
    \<and> add (limiter s) log' d' job =
         (scheduler (limiter s) log' d' job,
          (case scheduler (limiter s) log' d' job of
             None \<Rightarrow> (limiter s)\<lparr>inFlight := finsert (Uuid job) (inFlight (limiter s))\<rparr>
           | Some e \<Rightarrow> limiter s),
          log' @ [(job, scheduler (limiter s) log' d' job)])"
  using assms
  by (auto simp: add_def at_def split: option.splits)

theorem failed_launch_is_not_recorded_witness:
  "Uuid job_a |\<notin>| inFlight (limiter refused_adding)
   \<and> scheduler (limiter refused_adding) (launched refused_adding) (cancelled refused_adding 0) job_a
       = Some ''refused''
   \<and> goroutines refused_adding 0 = Some (CreateAdd 0 job_a) \<and> \<not> mu (limiter refused_adding)
   \<and> step refused_adding (Step 0) =
       Some (at (refused_adding\<lparr>launched := [(job_a, Some ''refused'')]\<rparr>) 0
               (Returned (Some ''refused'')))
   \<and> add (limiter refused_adding) [(job_a, Some ''refused'')] False job_a =
       (Some ''refused'', limiter refused_adding,
        [(job_a, Some ''refused''), (job_a, Some ''refused'')])"
  using failed_launch_is_not_recorded
    [of job_a refused_adding 0 "''refused''" 0 "[(job_a, Some ''refused'')]" False]
  by (simp add: refused_adding_def example_defs body_defs)

section \<open>No limit\<close>

lemma goroutine_step_unlimited:
  assumes "goroutine_step s g p = Some s'" and "MaxInFlight (limiter s) = 0" and "no_receiver s"
    and "goroutines s g = Some p"
  shows "no_receiver s'"
proof (cases p)
  case (Called c)
  with assms show ?thesis
    by (cases c)
      (auto simp: body_defs no_receiver_def Create_must_wait_def split: if_splits obj.splits)
qed (use assms in \<open>auto simp: body_defs no_receiver_def split: if_splits option.splits\<close>)

lemma step_unlimited:
  assumes "step s a = Some s'" and "MaxInFlight (limiter s) = 0" and "no_receiver s"
  shows "no_receiver s'"
proof (cases a)
  case (Step g)
  with assms obtain p where "goroutine_step s g p = Some s'" "goroutines s g = Some p"
    by (auto split: option.splits)
  then show ?thesis using assms(2,3) goroutine_step_unlimited by blast
qed (use assms in
    \<open>auto simp: at_def no_receiver_def split: option.splits point.splits if_splits\<close>)

text \<open>
  C6. With \<open>MaxInFlight\<close> 0 the test of line 72 is false whatever the in-flight set is, so
  a \<open>Create\<close> that has the read lock goes to the \<open>select\<close> and not to the receive; and in no
  state that the program reaches from \<open>NewLimiter\<close> with 0 is a goroutine in the receive of
  line 74.
\<close>

theorem unlimited_never_waits:
  "(MaxInFlight (limiter s) = 0 \<longrightarrow>
      \<not> Create_must_wait (limiter s)
      \<and> (goroutines s g = Some (Called (CallCreate ctx job)) \<and> \<not> mu (limiter s)
           \<longrightarrow> step s (Step g) = Some (at s g (CreateSelect ctx job))))
   \<and> (start key sched 0 = Inr s0 \<and> run s0 as = Some s'
        \<longrightarrow> (\<forall>g ctx job. goroutines s' g \<noteq> Some (CreateReceive ctx job)))"
proof (intro conjI impI)
  assume "MaxInFlight (limiter s) = 0"
  then show w: "\<not> Create_must_wait (limiter s)"
    by (simp add: Create_must_wait_def)
  assume "goroutines s g = Some (Called (CallCreate ctx job)) \<and> \<not> mu (limiter s)"
  with w show "step s (Step g) = Some (at s g (CreateSelect ctx job))"
    by simp
next
  assume a: "start key sched 0 = Inr s0 \<and> run s0 as = Some s'"
  then have s0: "MaxInFlight (limiter s0) = 0 \<and> no_receiver s0"
    by (auto simp: start_def NewLimiter_def make_chan_def no_receiver_def)
  have "MaxInFlight (limiter s') = 0 \<and> no_receiver s'"
    using a [THEN conjunct2] s0
  proof (rule run_invariant)
    fix t a t'
    assume "MaxInFlight (limiter t) = 0 \<and> no_receiver t" and "step t a = Some t'"
    then show "MaxInFlight (limiter t') = 0 \<and> no_receiver t'"
      using step_fixes [of t a t'] step_unlimited [of t a t'] by simp
  qed
  then show "\<forall>g ctx job. goroutines s' g \<noteq> Some (CreateReceive ctx job)"
    by (simp add: no_receiver_def)
qed

theorem unlimited_never_waits_witness:
  "MaxInFlight (limiter unlimited_called) = 0
   \<and> inFlight (limiter unlimited_called) = {|''a''|}
   \<and> goroutines unlimited_called 1 = Some (Called (CallCreate 0 job_b))
   \<and> \<not> mu (limiter unlimited_called)
   \<and> step unlimited_called (Step 1) = Some (at unlimited_called 1 (CreateSelect 0 job_b))
   \<and> start ''uuid'' always_ok 0 = Inr (started always_ok 0)
   \<and> run (started always_ok 0) (admit 0 0 job_a @ [Call 1 (CallCreate 0 job_b)])
       = Some unlimited_called
   \<and> goroutines unlimited_called 1 \<noteq> Some (CreateReceive 0 job_b)"
  using unlimited_never_waits
    [of unlimited_called 1 0 job_b "''uuid''" always_ok "started always_ok 0"
        "admit 0 0 job_a @ [Call 1 (CallCreate 0 job_b)]" unlimited_called]
  by (simp add: unlimited_called_def example_defs body_defs)

section \<open>The capacity wait\<close>

lemma handoff_sender: "step s (Handoff g r) = Some s' \<Longrightarrow> goroutines s g = Some HandlerSend"
  by (auto split: option.splits point.splits)

lemma quiet_no_sender: "quiet s \<Longrightarrow> goroutines s g \<noteq> Some HandlerSend"
  unfolding quiet_def by force

lemma goroutine_step_quiet:
  assumes "goroutine_step s g p = Some s'" and "quiet s" and "goroutines s g = Some p"
  shows "quiet s'"
proof (cases p)
  case (Called c)
  from assms have "\<not> handler_point p"
    by (simp add: quiet_def)
  with Called assms show ?thesis
    by (cases c) (auto simp: quiet_def at_def split: if_splits)
next
  case (CreateAdd ctx job)
  with assms show ?thesis
    by (auto simp: quiet_def body_defs successes_def fcard_finsert_if split: if_splits option.splits)
next
  case HandlerSend
  with assms show ?thesis
    using quiet_no_sender by blast
qed (use assms in \<open>auto simp: quiet_def body_defs split: if_splits option.splits\<close>)

lemma step_quiet:
  assumes "step s a = Some s'" and "quiet s" and "admission a"
  shows "quiet s'"
proof (cases a)
  case (Step g)
  with assms obtain p where "goroutine_step s g p = Some s'" "goroutines s g = Some p"
    by (auto split: option.splits)
  then show ?thesis using assms(2) goroutine_step_quiet by blast
next
  case (Call g c)
  with assms show ?thesis
    by (cases c) (auto simp: quiet_def at_def split: option.splits if_splits)
next
  case (Handoff g r)
  with assms show ?thesis
    using handoff_sender quiet_no_sender by blast
next
  case (Cancel c)
  with assms show ?thesis
    by (auto simp: quiet_def)
qed

lemma run_quiet:
  "run s as = Some s' \<Longrightarrow> quiet s \<Longrightarrow> \<forall>a \<in> set as. admission a \<Longrightarrow> quiet s'"
proof (induction as arbitrary: s)
  case Nil
  then show ?case by simp
next
  case (Cons a as)
  then obtain s1 where s1: "step s a = Some s1" "run s1 as = Some s'"
    by (auto split: option.splits)
  with Cons.prems have "quiet s1"
    by (auto intro: step_quiet)
  with Cons.IH [of s1] s1 Cons.prems show ?case by simp
qed

lemma goroutine_step_unsignalled:
  assumes "goroutine_step s h p = Some s'" and "unsignalled s g ctx job"
    and "goroutines s h = Some p" and "\<not> signals_at s p"
  shows "unsignalled s' g ctx job"
proof (cases p)
  case (Called c)
  show ?thesis
  proof (cases c)
    case (CallCreate ctx' job')
    with Called assms show ?thesis
      by (auto simp: unsignalled_def at_def split: if_splits)
  next
    case (CallOnAdd ob)
    with Called assms show ?thesis
      by (auto simp: unsignalled_def body_defs split: if_splits obj.splits)
  next
    case (CallOnUpdate old ob)
    with Called assms show ?thesis
      by (cases ob) (auto simp: unsignalled_def body_defs split: if_splits)
  next
    case (CallOnDelete ob)
    with Called assms show ?thesis
      by (cases ob) (auto simp: unsignalled_def body_defs split: if_splits)
  qed
qed (use assms in \<open>auto simp: unsignalled_def body_defs split: if_splits option.splits\<close>)

lemma step_unsignalled:
  assumes "step s a = Some s'" and "unsignalled s g ctx job" and "\<not> signals s a"
  shows "unsignalled s' g ctx job"
proof (cases a)
  case (Step h)
  with assms obtain p where "goroutine_step s h p = Some s'" "goroutines s h = Some p"
    "\<not> signals_at s p"
    by (auto simp: signals_def split: option.splits)
  then show ?thesis using assms(2) goroutine_step_unsignalled by blast
next
  case (Call h c)
  with assms show ?thesis
    by (auto simp: unsignalled_def at_def split: option.splits if_splits)
next
  case (Handoff h r)
  with assms have "goroutines s h = Some HandlerSend"
    using handoff_sender by blast
  with assms show ?thesis
    by (simp add: unsignalled_def)
next
  case (Cancel c)
  with assms show ?thesis
    by (auto simp: unsignalled_def)
qed

lemma run_unsignalled:
  "run s bs = Some t \<Longrightarrow> unsignalled s g ctx job \<Longrightarrow> \<not> signalled s bs \<Longrightarrow>
     unsignalled t g ctx job"
proof (induction bs arbitrary: s)
  case Nil
  then show ?case by simp
next
  case (Cons a bs)
  then obtain s1 where s1: "step s a = Some s1" "run s1 bs = Some t"
    by (auto split: option.splits)
  with Cons.prems have "unsignalled s1 g ctx job" "\<not> signalled s1 bs"
    by (auto intro: step_unsignalled)
  with Cons.IH [of s1] s1 show ?case by simp
qed

lemma receive_takes_one:
  assumes "goroutines t g1 = Some (CreateReceive c1 j1)"
    and "goroutines t g2 = Some (CreateReceive c2 j2)" and "g1 \<noteq> g2"
    and "buffered (completions (limiter t)) = 1" and "step t (Step g1) = Some t'"
  shows "goroutines t' g1 = Some (CreateSelect c1 j1) \<and> buffered (completions (limiter t')) = 0
    \<and> step t' (Step g2) = None"
  using assms by (auto simp: body_defs split: if_splits)

lemma started_quiet: "start key sched N = Inr s0 \<Longrightarrow> quiet s0"
  by (auto simp: start_def NewLimiter_def make_chan_def quiet_def successes_def split: if_splits)

text \<open>
  C5. Start with the limit N > 0 and let only admissions run. Then the in-flight set has
  one identifier per launch that succeeded, and once N of them have succeeded a new
  \<open>Create\<close> goes to the receive of line 74 and cannot take a step there. Whatever runs
  afterwards, the call is past the receive only if a handler has made the terminal
  transition of a tracked identifier before. A receive takes one token: of two callers in
  the receive with one token in the channel, the one that takes it goes on and the other
  one cannot take a step.
\<close>

theorem capacity_throttling:
  assumes "0 < N" and "start key sched N = Inr s0" and "run s0 as = Some s"
    and "\<forall>a \<in> set as. admission a" and "N \<le> int (successes (launched s))"
    and "goroutines s g = None"
  shows "fcard (inFlight (limiter s)) = successes (launched s)
    \<and> run s [Call g (CallCreate ctx job), Step g] = Some (at s g (CreateReceive ctx job))
    \<and> step (at s g (CreateReceive ctx job)) (Step g) = None
    \<and> (\<forall>bs t. run (at s g (CreateReceive ctx job)) bs = Some t
           \<and> goroutines t g \<noteq> Some (CreateReceive ctx job)
         \<longrightarrow> signalled (at s g (CreateReceive ctx job)) bs)
    \<and> (\<forall>t t' g1 g2 c1 j1 c2 j2.
          goroutines t g1 = Some (CreateReceive c1 j1) \<and> goroutines t g2 = Some (CreateReceive c2 j2)
          \<and> g1 \<noteq> g2 \<and> buffered (completions (limiter t)) = 1 \<and> step t (Step g1) = Some t'
         \<longrightarrow> goroutines t' g1 = Some (CreateSelect c1 j1)
           \<and> buffered (completions (limiter t')) = 0 \<and> step t' (Step g2) = None)"
proof -
  let ?b = "at s g (CreateReceive ctx job)"
  have q: "quiet s"
    using assms(3) started_quiet [OF assms(2)] assms(4) by (rule run_quiet)
  have "MaxInFlight (limiter s0) = N"
    using assms(1,2) by (auto simp: start_def NewLimiter_def make_chan_def split: if_splits)
  then have lim: "MaxInFlight (limiter s) = N"
    using run_invariant [OF assms(3), of "\<lambda>t. MaxInFlight (limiter t) = N"] step_fixes
    by simp
  have size: "fcard (inFlight (limiter s)) = successes (launched s)"
    using q by (simp add: quiet_def)
  have wait: "Create_must_wait (limiter s)"
    using assms(1,5) lim size by (simp add: Create_must_wait_def)
  have r: "run s [Call g (CallCreate ctx job), Step g] = Some ?b"
    using q wait assms(6) by (simp add: quiet_def at_def)
  have u: "unsignalled ?b g ctx job"
    using q quiet_no_sender [OF q] by (simp add: unsignalled_def quiet_def at_def)
  have blocked: "step ?b (Step g) = None"
    using q by (simp add: at_def quiet_def chan_recv_def)
  have later: "signalled ?b bs"
    if "run ?b bs = Some t \<and> goroutines t g \<noteq> Some (CreateReceive ctx job)" for bs t
    using that run_unsignalled [of ?b bs t g ctx job] u by (auto simp: unsignalled_def)
  show ?thesis
    using size r blocked later receive_takes_one by blast
qed

theorem capacity_throttling_witness:
  "(0::int) < 1
   \<and> start ''uuid'' always_ok 1 = Inr (started always_ok 1)
   \<and> run (started always_ok 1) (admit 0 0 job_a) = Some throttled
   \<and> list_all admission (admit 0 0 job_a)
   \<and> 1 \<le> int (successes (launched throttled))
   \<and> goroutines throttled 1 = None
   \<and> fcard (inFlight (limiter throttled)) = 1
   \<and> run throttled [Call 1 (CallCreate 0 job_b), Step 1] =
       Some (at throttled 1 (CreateReceive 0 job_b))
   \<and> step (at throttled 1 (CreateReceive 0 job_b)) (Step 1) = None
   \<and> goroutines (the (run (at throttled 1 (CreateReceive 0 job_b)) (delete 2 ''a'' @ [Step 1]))) 1
       = Some (CreateSelect 0 job_b)
   \<and> signalled (at throttled 1 (CreateReceive 0 job_b)) (delete 2 ''a'' @ [Step 1])
   \<and> goroutines two_waiting 1 = Some (CreateReceive 0 job_b)
   \<and> goroutines two_waiting 2 = Some (CreateReceive 0 job_a)
   \<and> buffered (completions (limiter two_waiting)) = 1
   \<and> goroutines (the (step two_waiting (Step 1))) 1 = Some (CreateSelect 0 job_b)
   \<and> step (the (step two_waiting (Step 1))) (Step 2) = None"
  using capacity_throttling
    [of 1 "''uuid''" always_ok "started always_ok 1" "admit 0 0 job_a" throttled 1 0 job_b]
  by (simp add: throttled_def two_waiting_def example_defs body_defs successes_def signals_def)

text \<open>
  The scenario of the specification runs as it says: the third call is in the receive and
  cannot go on; after the update that reports job a complete it takes the token and
  launches job c, and jobs b and c are in flight.
\<close>

lemma end_to_end_scenario:
  "map_option (\<lambda>s. goroutines s 2) (run (started always_ok 2) third_call)
     = Some (Some (CreateReceive 0 job_c))
   \<and> run (started always_ok 2) (third_call @ [Step 2]) = None
   \<and> map_option (\<lambda>s. (goroutines s 2, inFlight (limiter s), launched s,
                       buffered (completions (limiter s))))
         (run (started always_ok 2) (third_call @ a_completes @ [Step 2, Step 2, Step 2]))
     = Some (Some (Returned None), {|''b'', ''c''|},
             [(job_a, None), (job_b, None), (job_c, None)], 0)"
  by (simp add: third_call_def a_completes_def example_defs body_defs JobComplete_def
      JobFailed_def) auto

section \<open>The send of a completion\<close>

text \<open>
  \<open>markComplete\<close> where the send can complete, and on an identifier that is not tracked.
\<close>

lemma markComplete_with_room:
  assumes "buffered (completions l) < capacity (completions l)"
  shows "markComplete key l job =
    Completed (if label job key |\<in>| inFlight l
               then l\<lparr>inFlight := inFlight l |-| {|label job key|},
                      completions := (completions l)\<lparr>buffered := buffered (completions l) + 1\<rparr>\<rparr>
               else l)"
  using assms by (simp add: markComplete_def chan_send_def Let_def)

lemma markComplete_untracked:
  "label job key |\<notin>| inFlight l \<Longrightarrow> markComplete key l job = Completed l"
  by (simp add: markComplete_def Let_def)

lemma markComplete_without_room:
  assumes "\<not> buffered (completions l) < capacity (completions l)"
    and "label job key |\<in>| inFlight l"
  shows "markComplete key l job = Parked (l\<lparr>inFlight := inFlight l |-| {|label job key|}\<rparr>)"
  using assms by (simp add: markComplete_def chan_send_def Let_def)

text \<open>
  Once a handler is parked in the send and nothing can take from the channel, nothing
  moves but calls that are past their first lock: the limiter and the log stay as they
  are, and so do the calls that wait for the lock.
\<close>

lemma goroutine_step_wedged:
  assumes "goroutine_step s g p = Some s'" and "wedged s h" and "goroutines s g = Some p"
  shows "wedged s' h \<and> limiter s' = limiter s \<and> launched s' = launched s
    \<and> (\<forall>k c. goroutines s k = Some (Called c) \<longrightarrow> goroutines s' k = Some (Called c))"
proof (cases p)
  case (Called c)
  with assms show ?thesis
    by (cases c) (auto simp: wedged_def)
next
  case (CreateReceive ctx job)
  with assms show ?thesis
    by (auto simp: wedged_def no_receiver_def)
next
  case (CreateSelect ctx job)
  with assms show ?thesis
    by (auto simp: wedged_def no_receiver_def at_def split: if_splits)
next
  case (CreateAdd ctx job)
  with assms show ?thesis
    by (auto simp: wedged_def)
next
  case HandlerSend
  with assms show ?thesis
    by (auto simp: wedged_def)
qed (use assms in auto)

lemma handoff_receiver:
  "step s (Handoff g r) = Some s' \<Longrightarrow> \<exists>ctx job. goroutines s r = Some (CreateReceive ctx job)"
  by (auto split: option.splits point.splits)

lemma step_wedged:
  assumes "step s a = Some s'" and "wedged s h"
  shows "wedged s' h \<and> limiter s' = limiter s \<and> launched s' = launched s
    \<and> (\<forall>k c. goroutines s k = Some (Called c) \<longrightarrow> goroutines s' k = Some (Called c))"
proof (cases a)
  case (Step g)
  with assms obtain p where "goroutine_step s g p = Some s'" "goroutines s g = Some p"
    by (auto split: option.splits)
  with assms(2) show ?thesis by (simp add: goroutine_step_wedged)
next
  case (Call g c)
  with assms show ?thesis
    by (auto simp: wedged_def no_receiver_def at_def split: option.splits if_splits)
next
  case (Handoff g r)
  with assms have "\<exists>ctx job. goroutines s r = Some (CreateReceive ctx job)"
    using handoff_receiver by blast
  with assms show ?thesis
    by (simp add: wedged_def no_receiver_def)
next
  case (Cancel c)
  with assms show ?thesis
    by (auto simp: wedged_def no_receiver_def)
qed

lemma run_wedged:
  assumes "run s bs = Some t" and "wedged s h"
  shows "wedged t h \<and> limiter t = limiter s \<and> launched t = launched s
    \<and> (\<forall>k c. goroutines s k = Some (Called c) \<longrightarrow> goroutines t k = Some (Called c))"
  using assms
proof (induction bs arbitrary: s)
  case Nil
  then show ?case by simp
next
  case (Cons a bs)
  then obtain s1 where s1: "step s a = Some s1" "run s1 bs = Some t"
    by (auto split: option.splits)
  from step_wedged [OF s1(1) Cons.prems(2)] Cons.IH [OF s1(2)] show ?case
    by simp
qed

lemma wedged_blocks:
  assumes "wedged s h"
  shows "step s (Step h) = None"
    and "goroutines s k = Some (Called c) \<Longrightarrow> step s (Step k) = None"
  using assms by (cases c; auto simp: wedged_def)+

lemma parked_unlimited_eq:
  "run (started always_ok 0) (admit 0 0 job_a @ delete 1 ''a'') = Some parked_unlimited
   \<and> wedged parked_unlimited 1
   \<and> inFlight (limiter parked_unlimited) = {||}
   \<and> completions (limiter parked_unlimited) = \<lparr>buffered = 0, capacity = 0\<rparr>"
  by (simp add: parked_unlimited_def wedged_def no_receiver_def example_defs body_defs)

lemma parked_full_eq:
  "run (started always_ok 1) (admit 0 0 job_a @ delete 1 ''a'' @ admit 2 0 job_b @ delete 3 ''b'')
     = Some parked_full
   \<and> wedged parked_full 3
   \<and> inFlight (limiter parked_full) = {||}
   \<and> completions (limiter parked_full) = \<lparr>buffered = 1, capacity = 1\<rparr>"
  by (simp add: parked_full_def wedged_def no_receiver_def example_defs body_defs)

text \<open>
  C7. The send of \<open>markComplete\<close> does park for good. With no limit the channel has no
  buffer and \<open>Create\<close> never receives: after job a is admitted and deleted, the handler is
  in the send with the lock, and in every state that any run reaches from there it is
  still in the send, the lock is still held and the channel is as it was. With the limit
  1, a token that no caller was waiting for stays in the channel: after job a is admitted
  and deleted and job b is admitted and deleted, the second send finds the channel full,
  and the same holds.
\<close>

theorem completion_send_parks_forever:
  "run (started always_ok 0) (admit 0 0 job_a @ delete 1 ''a'') = Some parked_unlimited
   \<and> goroutines parked_unlimited 1 = Some HandlerSend
   \<and> inFlight (limiter parked_unlimited) = {||}
   \<and> chan_send (completions (limiter parked_unlimited)) = None
   \<and> (\<forall>bs t. run parked_unlimited bs = Some t \<longrightarrow>
         goroutines t 1 = Some HandlerSend \<and> mu (limiter t)
         \<and> completions (limiter t) = \<lparr>buffered = 0, capacity = 0\<rparr>)
   \<and> run (started always_ok 1) (admit 0 0 job_a @ delete 1 ''a'' @ admit 2 0 job_b @ delete 3 ''b'')
       = Some parked_full
   \<and> goroutines parked_full 3 = Some HandlerSend
   \<and> inFlight (limiter parked_full) = {||}
   \<and> chan_send (completions (limiter parked_full)) = None
   \<and> (\<forall>bs t. run parked_full bs = Some t \<longrightarrow>
         goroutines t 3 = Some HandlerSend \<and> mu (limiter t)
         \<and> completions (limiter t) = \<lparr>buffered = 1, capacity = 1\<rparr>)"
proof -
  have u: "wedged parked_unlimited 1" and f: "wedged parked_full 3"
    using parked_unlimited_eq parked_full_eq by simp_all
  have "goroutines t 1 = Some HandlerSend \<and> mu (limiter t)
      \<and> completions (limiter t) = \<lparr>buffered = 0, capacity = 0\<rparr>"
    if "run parked_unlimited bs = Some t" for bs t
    using run_wedged [OF that u] parked_unlimited_eq by (simp add: wedged_def)
  moreover have "goroutines t 3 = Some HandlerSend \<and> mu (limiter t)
      \<and> completions (limiter t) = \<lparr>buffered = 1, capacity = 1\<rparr>"
    if "run parked_full bs = Some t" for bs t
    using run_wedged [OF that f] parked_full_eq by (simp add: wedged_def)
  ultimately show ?thesis
    using parked_unlimited_eq parked_full_eq u f by (simp add: wedged_def)
qed

theorem completion_send_parks_forever_witness:
  "run parked_unlimited [Call 2 (CallCreate 0 job_b), Cancel 0]
     = Some (the (run parked_unlimited [Call 2 (CallCreate 0 job_b), Cancel 0]))
   \<and> goroutines (the (run parked_unlimited [Call 2 (CallCreate 0 job_b), Cancel 0])) 1
       = Some HandlerSend
   \<and> buffered (completions (limiter (the (run parked_unlimited [Call 2 (CallCreate 0 job_b), Cancel 0]))))
       = 0
   \<and> run parked_unlimited [Call 2 (CallCreate 0 job_b), Step 2] = None
   \<and> run parked_full [Call 4 (CallCreate 0 job_a), Cancel 0]
     = Some (the (run parked_full [Call 4 (CallCreate 0 job_a), Cancel 0]))
   \<and> goroutines (the (run parked_full [Call 4 (CallCreate 0 job_a), Cancel 0])) 3 = Some HandlerSend
   \<and> buffered (completions (limiter (the (run parked_full [Call 4 (CallCreate 0 job_a), Cancel 0]))))
       = 1
   \<and> run parked_full [Call 4 (CallCreate 0 job_a), Step 4] = None"
  using completion_send_parks_forever
  by (simp add: parked_unlimited_def parked_full_def example_defs body_defs)

text \<open>
  C4, where the channel has no room. With no limit and job a in flight, \<open>markComplete\<close> on
  job a deletes the identifier and parks in the send: it has put no token into the
  channel. Of two \<open>OnDelete\<close> for job a, the first one stays in the send and the second
  one stays before the lock, in every state that any run reaches, and the channel stays
  empty: the two calls give no token, not one.
\<close>

theorem markComplete_parks_without_token:
  "label (k8s_job ''a'' []) ''uuid'' |\<in>| inFlight (limiter admitted_unlimited)
   \<and> buffered (completions (limiter admitted_unlimited)) = 0
   \<and> markComplete ''uuid'' (limiter admitted_unlimited) (k8s_job ''a'' [])
       = Parked ((limiter admitted_unlimited)\<lparr>inFlight := {||}\<rparr>)
   \<and> run admitted_unlimited (delete 1 ''a'' @ [Call 2 (CallOnDelete (JobObj (k8s_job ''a'' [])))])
       = Some (at parked_unlimited 2 (Called (CallOnDelete (JobObj (k8s_job ''a'' [])))))
   \<and> step (at parked_unlimited 2 (Called (CallOnDelete (JobObj (k8s_job ''a'' []))))) (Step 1) = None
   \<and> step (at parked_unlimited 2 (Called (CallOnDelete (JobObj (k8s_job ''a'' []))))) (Step 2) = None
   \<and> (\<forall>bs t. run (at parked_unlimited 2 (Called (CallOnDelete (JobObj (k8s_job ''a'' []))))) bs = Some t
         \<longrightarrow> buffered (completions (limiter t)) = 0
           \<and> goroutines t 1 = Some HandlerSend
           \<and> goroutines t 2 = Some (Called (CallOnDelete (JobObj (k8s_job ''a'' [])))))"
proof -
  let ?x = "at parked_unlimited 2 (Called (CallOnDelete (JobObj (k8s_job ''a'' []))))"
  have w: "wedged ?x 1"
    using parked_unlimited_eq
    by (simp add: wedged_def no_receiver_def at_def chan_send_def)
  have c: "goroutines ?x 2 = Some (Called (CallOnDelete (JobObj (k8s_job ''a'' []))))"
    by (simp add: at_def)
  have "buffered (completions (limiter t)) = 0 \<and> goroutines t 1 = Some HandlerSend
      \<and> goroutines t 2 = Some (Called (CallOnDelete (JobObj (k8s_job ''a'' []))))"
    if "run ?x bs = Some t" for bs t
    using run_wedged [OF that w] c parked_unlimited_eq by (simp add: wedged_def at_def)
  moreover have "label (k8s_job ''a'' []) ''uuid'' |\<in>| inFlight (limiter admitted_unlimited)
   \<and> buffered (completions (limiter admitted_unlimited)) = 0
   \<and> markComplete ''uuid'' (limiter admitted_unlimited) (k8s_job ''a'' [])
       = Parked ((limiter admitted_unlimited)\<lparr>inFlight := {||}\<rparr>)
   \<and> run admitted_unlimited (delete 1 ''a'' @ [Call 2 (CallOnDelete (JobObj (k8s_job ''a'' [])))])
       = Some ?x"
    by (simp add: admitted_unlimited_def parked_unlimited_def example_defs body_defs)
  moreover have "step ?x (Step 1) = None"
    by (rule wedged_blocks(1) [OF w])
  moreover have "step ?x (Step 2) = None"
    by (rule wedged_blocks(2) [OF w c])
  ultimately show ?thesis
    by simp
qed

theorem markComplete_parks_without_token_witness:
  "run (at parked_unlimited 2 (Called (CallOnDelete (JobObj (k8s_job ''a'' []))))) [Cancel 0]
     = Some ((at parked_unlimited 2 (Called (CallOnDelete (JobObj (k8s_job ''a'' [])))))
              \<lparr>cancelled := (\<lambda>_. False)(0 := True)\<rparr>)
   \<and> buffered (completions (limiter parked_unlimited)) = 0
   \<and> goroutines parked_unlimited 1 = Some HandlerSend"
  using markComplete_parks_without_token
  by (simp add: parked_unlimited_def example_defs body_defs)

text \<open>
  C9, where the channel has no room. With no limit and job a in flight, the update that
  reports job a complete does not signal: \<open>OnUpdate\<close> deletes the identifier and parks in
  the send of \<open>markComplete\<close>, whatever the old object is, and no token is in the channel.
  The handler stays in the send in every state that any run reaches, and the channel
  stays empty.
\<close>

theorem terminal_update_parks_without_token:
  "isFinished job_a_complete
   \<and> label job_a_complete ''uuid'' |\<in>| inFlight (limiter admitted_unlimited)
   \<and> buffered (completions (limiter admitted_unlimited)) = 0
   \<and> OnUpdate ''uuid'' (limiter admitted_unlimited) (JobObj (k8s_job ''a'' [])) (JobObj job_a_complete)
       = Inr (Parked ((limiter admitted_unlimited)\<lparr>inFlight := {||}\<rparr>))
   \<and> OnUpdate ''uuid'' (limiter admitted_unlimited) OtherObj (JobObj job_a_complete)
       = Inr (Parked ((limiter admitted_unlimited)\<lparr>inFlight := {||}\<rparr>))
   \<and> run admitted_unlimited update_a_complete = Some parked_update
   \<and> goroutines parked_update 1 = Some HandlerSend
   \<and> inFlight (limiter parked_update) = {||}
   \<and> buffered (completions (limiter parked_update)) = 0
   \<and> step parked_update (Step 1) = None
   \<and> (\<forall>bs t. run parked_update bs = Some t
         \<longrightarrow> goroutines t 1 = Some HandlerSend \<and> buffered (completions (limiter t)) = 0)"
proof -
  have e: "isFinished job_a_complete
   \<and> label job_a_complete ''uuid'' |\<in>| inFlight (limiter admitted_unlimited)
   \<and> buffered (completions (limiter admitted_unlimited)) = 0
   \<and> OnUpdate ''uuid'' (limiter admitted_unlimited) (JobObj (k8s_job ''a'' [])) (JobObj job_a_complete)
       = Inr (Parked ((limiter admitted_unlimited)\<lparr>inFlight := {||}\<rparr>))
   \<and> OnUpdate ''uuid'' (limiter admitted_unlimited) OtherObj (JobObj job_a_complete)
       = Inr (Parked ((limiter admitted_unlimited)\<lparr>inFlight := {||}\<rparr>))
   \<and> run admitted_unlimited update_a_complete = Some parked_update
   \<and> inFlight (limiter parked_update) = {||}
   \<and> completions (limiter parked_update) = \<lparr>buffered = 0, capacity = 0\<rparr>"
    by (simp add: parked_update_def update_a_complete_def admitted_unlimited_def
        job_a_complete_def example_defs body_defs JobComplete_def JobFailed_def)
  have w: "wedged parked_update 1"
    by (simp add: wedged_def no_receiver_def parked_update_def update_a_complete_def
        admitted_unlimited_def job_a_complete_def example_defs body_defs JobComplete_def
        JobFailed_def)
  have "goroutines t 1 = Some HandlerSend \<and> buffered (completions (limiter t)) = 0"
    if "run parked_update bs = Some t" for bs t
    using run_wedged [OF that w] e by (simp add: wedged_def)
  moreover have "step parked_update (Step 1) = None"
    by (rule wedged_blocks(1) [OF w])
  moreover have "goroutines parked_update 1 = Some HandlerSend"
    using w by (simp add: wedged_def)
  ultimately show ?thesis
    using e by simp
qed

theorem terminal_update_parks_without_token_witness:
  "run parked_update [Call 2 (CallCreate 0 job_b), Cancel 0]
     = Some (the (run parked_update [Call 2 (CallCreate 0 job_b), Cancel 0]))
   \<and> goroutines (the (run parked_update [Call 2 (CallCreate 0 job_b), Cancel 0])) 1
       = Some HandlerSend
   \<and> buffered (completions (limiter (the (run parked_update [Call 2 (CallCreate 0 job_b), Cancel 0]))))
       = 0
   \<and> run parked_update [Call 2 (CallCreate 0 job_b), Step 2] = None"
  using terminal_update_parks_without_token
  by (simp add: parked_update_def update_a_complete_def admitted_unlimited_def
      job_a_complete_def example_defs body_defs JobComplete_def JobFailed_def)

section \<open>Cancellation\<close>

text \<open>
  The receive of line 74 takes its step, or cannot take it, whatever the contexts are: the
  context is read at the \<open>select\<close> of line 77 only.
\<close>

lemma receive_ignores_cancellation:
  assumes "goroutines s g = Some (CreateReceive ctx job)"
  shows "step (s\<lparr>cancelled := c\<rparr>) (Step g) = map_option (\<lambda>t. t\<lparr>cancelled := c\<rparr>) (step s (Step g))"
  using assms by (simp add: at_def split: option.splits)

text \<open>
  What does hold: a call whose context is cancelled when it is at the \<open>select\<close> returns
  nil there and changes nothing.
\<close>

lemma cancelled_at_select:
  assumes "goroutines s g = Some (CreateSelect ctx job)" and "cancelled s ctx"
  shows "step s (Step g) = Some (at s g (Returned None))"
  using assms by simp

text \<open>
  C1, at a call that is in the capacity wait when its context is cancelled. Limit 1, job a
  in flight, a \<open>Create\<close> for job b in the receive, its context cancelled: the call cannot
  take a step, so it does not return. When job a is deleted and its token is in the
  channel, the call takes the token and then returns nil at the \<open>select\<close>: nothing is
  launched, and the channel is empty again. With a call for job c in the receive as well,
  the token that the cancelled call has taken is the one that job c needed: the set is
  empty, the limit is 1, and the call for job c cannot take a step.
\<close>

theorem cancelled_caller_keeps_waiting:
  "goroutines cancelled_waiting 1 = Some (CreateReceive 1 job_b)
   \<and> cancelled cancelled_waiting 1
   \<and> buffered (completions (limiter cancelled_waiting)) = 0
   \<and> step cancelled_waiting (Step 1) = None
   \<and> buffered (completions (limiter (the (run cancelled_waiting (delete 2 ''a''))))) = 1
   \<and> run cancelled_waiting (delete 2 ''a'' @ [Step 1, Step 1])
       = Some (the (run cancelled_waiting (delete 2 ''a'' @ [Step 1, Step 1])))
   \<and> goroutines (the (run cancelled_waiting (delete 2 ''a'' @ [Step 1, Step 1]))) 1
       = Some (Returned None)
   \<and> buffered (completions (limiter (the (run cancelled_waiting (delete 2 ''a'' @ [Step 1, Step 1])))))
       = 0
   \<and> launched (the (run cancelled_waiting (delete 2 ''a'' @ [Step 1, Step 1]))) = [(job_a, None)]
   \<and> goroutines one_token_two_callers 1 = Some (CreateReceive 1 job_b)
   \<and> goroutines one_token_two_callers 2 = Some (CreateReceive 0 job_c)
   \<and> cancelled one_token_two_callers 1
   \<and> buffered (completions (limiter one_token_two_callers)) = 1
   \<and> run one_token_two_callers [Step 1, Step 1]
       = Some (the (run one_token_two_callers [Step 1, Step 1]))
   \<and> goroutines (the (run one_token_two_callers [Step 1, Step 1])) 1 = Some (Returned None)
   \<and> goroutines (the (run one_token_two_callers [Step 1, Step 1])) 2
       = Some (CreateReceive 0 job_c)
   \<and> inFlight (limiter (the (run one_token_two_callers [Step 1, Step 1]))) = {||}
   \<and> launched (the (run one_token_two_callers [Step 1, Step 1])) = [(job_a, None)]
   \<and> step (the (run one_token_two_callers [Step 1, Step 1])) (Step 2) = None"
  by (simp add: cancelled_waiting_def one_token_two_callers_def example_defs body_defs)

end
